theory Spec2Isabelle
  imports Main "HOL-Library.AList"
begin

section \<open>Python values and the built-in operations the program uses\<close>

text \<open>
  The program moves untyped JSON data around: what \<^verbatim>\<open>json.loads\<close> returns is
  a Python value built from \<^verbatim>\<open>None\<close>, booleans, integers, floats, text, lists
  and dictionaries. A dictionary is an association list in insertion order; looking a
  key up reads its first entry and storing a key replaces that entry in place or appends
  a new one, as a Python dictionary does. \<open>PFloat m e\<close> is the double nearest to
  \<open>m * 10 ^ e\<close> (the sign of a zero is not recorded); \<open>PInf b\<close> is the infinity
  of sign \<open>b\<close> (\<open>True\<close> for the negative one). Text is a list of characters, each
  standing for one code point below 256.
\<close>

datatype pyval =
    PNone
  | PBool bool
  | PInt int
  | PFloat int int
  | PNaN
  | PInf bool
  | PStr string
  | PList "pyval list"
  | PDict "(string \<times> pyval) list"

datatype error =
    TypeError
  | AttributeError
  | KeyError
  | ValueError
  | RuntimeError
  | TransportError

text \<open>Sequencing of steps that may raise: the first exception ends the computation.\<close>

definition ebind :: "error + 'a \<Rightarrow> ('a \<Rightarrow> error + 'b) \<Rightarrow> error + 'b" where
  "ebind m f = (case m of Inl e \<Rightarrow> Inl e | Inr v \<Rightarrow> f v)"

text \<open>A \<^verbatim>\<open>for\<close> loop that rebuilds each element, stopping at the first exception.\<close>

fun emap :: "('a \<Rightarrow> error + 'b) \<Rightarrow> 'a list \<Rightarrow> error + 'b list" where
  "emap f [] = Inr []"
| "emap f (x # xs) =
     (case f x of
        Inl e \<Rightarrow> Inl e
      | Inr y \<Rightarrow> (case emap f xs of Inl e \<Rightarrow> Inl e | Inr ys \<Rightarrow> Inr (y # ys)))"

text \<open>
  Truth value of a Python object. A float is false exactly when it is a zero: the
  decimal \<open>m * 10 ^ e\<close> rounds to zero when \<open>m = 0\<close> or its magnitude is at most
  \<open>2 ^ -1075\<close>, half of the smallest subnormal double.
\<close>

definition float_nonzero :: "int \<Rightarrow> int \<Rightarrow> bool" where
  "float_nonzero m e =
     (m \<noteq> 0 \<and> (if 0 \<le> e then True else 10 ^ nat (- e) < \<bar>m\<bar> * 2 ^ 1075))"

fun truthy :: "pyval \<Rightarrow> bool" where
  "truthy PNone = False"
| "truthy (PBool b) = b"
| "truthy (PInt i) = (i \<noteq> 0)"
| "truthy (PFloat m e) = float_nonzero m e"
| "truthy PNaN = True"
| "truthy (PInf b) = True"
| "truthy (PStr s) = (s \<noteq> [])"
| "truthy (PList xs) = (xs \<noteq> [])"
| "truthy (PDict kv) = (kv \<noteq> [])"

fun is_str :: "pyval \<Rightarrow> bool" where
  "is_str (PStr s) = True"
| "is_str v = False"

fun is_list :: "pyval \<Rightarrow> bool" where
  "is_list (PList xs) = True"
| "is_list v = False"

fun is_dict :: "pyval \<Rightarrow> bool" where
  "is_dict (PDict kv) = True"
| "is_dict v = False"

text \<open>\<^verbatim>\<open>len(x)\<close>: defined on text, lists and dictionaries, a TypeError elsewhere.\<close>

fun py_len :: "pyval \<Rightarrow> error + nat" where
  "py_len (PStr s) = Inr (length s)"
| "py_len (PList xs) = Inr (length xs)"
| "py_len (PDict kv) = Inr (length kv)"
| "py_len v = Inl TypeError"

text \<open>\<^verbatim>\<open>x.get(k, d)\<close>: only a dictionary has the method.\<close>

fun py_get :: "pyval \<Rightarrow> string \<Rightarrow> pyval \<Rightarrow> error + pyval" where
  "py_get (PDict kv) k d = Inr (case map_of kv k of Some v \<Rightarrow> v | None \<Rightarrow> d)"
| "py_get v k d = Inl AttributeError"

fun is_prefix :: "string \<Rightarrow> string \<Rightarrow> bool" where
  "is_prefix [] s = True"
| "is_prefix (c # cs) [] = False"
| "is_prefix (c # cs) (d # ds) = (c = d \<and> is_prefix cs ds)"

fun is_substring :: "string \<Rightarrow> string \<Rightarrow> bool" where
  "is_substring k [] = (k = [])"
| "is_substring k (c # cs) = (is_prefix k (c # cs) \<or> is_substring k cs)"

text \<open>
  \<^verbatim>\<open>k in x\<close> for a text \<open>k\<close>: a key of a dictionary, an element of a list, a
  substring of a text; a TypeError on anything that is not a container.
\<close>

fun py_contains :: "string \<Rightarrow> pyval \<Rightarrow> error + bool" where
  "py_contains k (PDict kv) = Inr (map_of kv k \<noteq> None)"
| "py_contains k (PList xs) = Inr (List.member xs (PStr k))"
| "py_contains k (PStr s) = Inr (is_substring k s)"
| "py_contains k v = Inl TypeError"

text \<open>\<^verbatim>\<open>x[k]\<close> and \<^verbatim>\<open>x[k] = v\<close> for a text \<open>k\<close>.\<close>

fun py_getitem :: "pyval \<Rightarrow> string \<Rightarrow> error + pyval" where
  "py_getitem (PDict kv) k = (case map_of kv k of Some v \<Rightarrow> Inr v | None \<Rightarrow> Inl KeyError)"
| "py_getitem v k = Inl TypeError"

fun py_setitem :: "pyval \<Rightarrow> string \<Rightarrow> pyval \<Rightarrow> error + pyval" where
  "py_setitem (PDict kv) k v = Inr (PDict (AList.update k v kv))"
| "py_setitem x k v = Inl TypeError"

text \<open>
  The elements a \<^verbatim>\<open>for\<close> loop visits: those of a list, the keys of a dictionary,
  the characters of a text.
\<close>

fun py_iter :: "pyval \<Rightarrow> error + pyval list" where
  "py_iter (PList xs) = Inr xs"
| "py_iter (PDict kv) = Inr (map (\<lambda>p. PStr (fst p)) kv)"
| "py_iter (PStr s) = Inr (map (\<lambda>c. PStr [c]) s)"
| "py_iter v = Inl TypeError"

subsection \<open>Text helpers\<close>

text \<open>
  Whitespace as \<^verbatim>\<open>str.strip\<close> and the pattern \<^verbatim>\<open>\s\<close> see it, among
  the code points below 256.
\<close>

definition is_space :: "char \<Rightarrow> bool" where
  "is_space c =
     (let n = (of_char c :: nat)
      in (9 \<le> n \<and> n \<le> 13) \<or> (28 \<le> n \<and> n \<le> 32) \<or> n = 133 \<or> n = 160)"

definition py_strip :: "string \<Rightarrow> string" where
  "py_strip s = rev (dropWhile is_space (rev (dropWhile is_space s)))"

text \<open>
  \<^verbatim>\<open>re.search(r"\{.*\}", raw, re.S)\<close>: the match starts at the first opening brace
  and, being greedy with the dot matching newlines, ends at the last closing brace after
  it; there is no match when no closing brace follows the first opening one.
\<close>

definition brace_span :: "string \<Rightarrow> string option" where
  "brace_span raw =
     (case dropWhile (\<lambda>c. c \<noteq> CHR ''{'') raw of
        [] \<Rightarrow> None
      | c # body \<Rightarrow>
          (case rev (dropWhile (\<lambda>d. d \<noteq> CHR ''}'') (rev body)) of
             [] \<Rightarrow> None
           | d # ds \<Rightarrow> Some (c # d # ds)))"

text \<open>
  \<^verbatim>\<open>re.sub(r",(\s*[}\]])", r"\1", s)\<close>: every comma that is followed, after optional
  whitespace, by a closing brace or bracket is removed; what follows it is kept.
\<close>

definition closes :: "string \<Rightarrow> bool" where
  "closes s =
     (case dropWhile is_space s of
        [] \<Rightarrow> False
      | c # cs \<Rightarrow> c = CHR ''}'' \<or> c = CHR '']'')"

fun strip_trailing_commas :: "string \<Rightarrow> string" where
  "strip_trailing_commas [] = []"
| "strip_trailing_commas (c # cs) =
     (if c = CHR '','' \<and> closes cs then strip_trailing_commas cs
      else c # strip_trailing_commas cs)"

section \<open>The JSON decoder\<close>

text \<open>
  A model of \<^verbatim>\<open>json.loads\<close> of the Python standard library, used to run the
  program on concrete texts; the general theorems below hold for every decoder. It
  follows the library's scanner: whitespace is space, tab, line feed and carriage
  return; a number is the longest match of
  \<^verbatim>\<open>-?(0|[1-9][0-9]*)(\.[0-9]+)?([eE][-+]?[0-9]+)?\<close>; the constants
  \<^verbatim>\<open>NaN\<close>, \<^verbatim>\<open>Infinity\<close> and \<^verbatim>\<open>-Infinity\<close> are accepted; a
  control character inside a string is an error; a repeated key keeps its first
  position and its last value; anything after the value but whitespace is an error.
  An escape \<^verbatim>\<open>\uXXXX\<close> of a code point above 255 is outside the text model and
  is rejected here. Python also rejects a nesting deeper than its recursion limit and an
  integer of more digits than its conversion limit; the model accepts both. The scanner
  recurses on a counter: \<open>json_loads\<close> sets it above twice the length of the text, and
  \<open>json_loads_fuel\<close> below shows that no larger counter changes the result.
\<close>

definition json_ws :: "char \<Rightarrow> bool" where
  "json_ws c = (c = CHR '' '' \<or> c = CHR 0x09 \<or> c = CHR 0x0A \<or> c = CHR 0x0D)"

definition skip_ws :: "string \<Rightarrow> string" where
  "skip_ws s = dropWhile json_ws s"

definition is_digit :: "char \<Rightarrow> bool" where
  "is_digit c = (let n = (of_char c :: nat) in 48 \<le> n \<and> n \<le> 57)"

definition digits_value :: "string \<Rightarrow> nat" where
  "digits_value ds = foldl (\<lambda>a c. 10 * a + (of_char c - 48)) 0 ds"

definition hex_val :: "char \<Rightarrow> nat option" where
  "hex_val c =
     (let n = (of_char c :: nat)
      in if 48 \<le> n \<and> n \<le> 57 then Some (n - 48)
         else if 65 \<le> n \<and> n \<le> 70 then Some (n - 55)
         else if 97 \<le> n \<and> n \<le> 102 then Some (n - 87)
         else None)"

definition hex4 :: "char \<Rightarrow> char \<Rightarrow> char \<Rightarrow> char \<Rightarrow> nat option" where
  "hex4 a b c d =
     (case (hex_val a, hex_val b, hex_val c, hex_val d) of
        (Some w, Some x, Some y, Some z) \<Rightarrow> Some (((w * 16 + x) * 16 + y) * 16 + z)
      | _ \<Rightarrow> None)"

definition unescape :: "char \<Rightarrow> char option" where
  "unescape e =
     (if e = CHR 0x22 \<or> e = CHR 0x5C \<or> e = CHR ''/'' then Some e
      else if e = CHR ''b'' then Some (CHR 0x08)
      else if e = CHR ''f'' then Some (CHR 0x0C)
      else if e = CHR ''n'' then Some (CHR 0x0A)
      else if e = CHR ''r'' then Some (CHR 0x0D)
      else if e = CHR ''t'' then Some (CHR 0x09)
      else None)"

definition push :: "'a \<Rightarrow> ('a list \<times> string) option \<Rightarrow> ('a list \<times> string) option" where
  "push x res = (case res of Some (xs, r) \<Rightarrow> Some (x # xs, r) | None \<Rightarrow> None)"

fun scan_string :: "string \<Rightarrow> (string \<times> string) option" where
  "scan_string [] = None"
| "scan_string (c # cs) =
     (if c = CHR 0x22 then Some ([], cs)
      else if c = CHR 0x5C then
        (case cs of
           [] \<Rightarrow> None
         | e # r \<Rightarrow>
             if e = CHR ''u'' then
               (case r of
                  h1 # h2 # h3 # h4 # r' \<Rightarrow>
                    (case hex4 h1 h2 h3 h4 of
                       Some n \<Rightarrow> if n < 256 then push (char_of n) (scan_string r') else None
                     | None \<Rightarrow> None)
                | _ \<Rightarrow> None)
             else
               (case unescape e of
                  Some d \<Rightarrow> push d (scan_string r)
                | None \<Rightarrow> None))
      else if (of_char c :: nat) < 32 then None
      else push c (scan_string cs))"

definition scan_exponent :: "string \<Rightarrow> (int \<times> string) option" where
  "scan_exponent s =
     (case s of
        [] \<Rightarrow> None
      | x # xs \<Rightarrow>
          if x = CHR ''e'' \<or> x = CHR ''E'' then
            (let (neg, ys) =
                   (case xs of
                      [] \<Rightarrow> (False, xs)
                    | y # ys' \<Rightarrow>
                        if y = CHR ''-'' then (True, ys')
                        else if y = CHR ''+'' then (False, ys')
                        else (False, xs))
             in case takeWhile is_digit ys of
                  [] \<Rightarrow> None
                | d # ds \<Rightarrow>
                    Some ((if neg then - int (digits_value (d # ds)) else int (digits_value (d # ds))),
                          dropWhile is_digit ys))
          else None)"

definition scan_fraction :: "string \<Rightarrow> (string \<times> string) option" where
  "scan_fraction s =
     (case s of
        [] \<Rightarrow> None
      | x # xs \<Rightarrow>
          if x = CHR ''.'' then
            (case takeWhile is_digit xs of
               [] \<Rightarrow> None
             | d # ds \<Rightarrow> Some (d # ds, dropWhile is_digit xs))
          else None)"

definition scan_number :: "string \<Rightarrow> (pyval \<times> string) option" where
  "scan_number s =
     (let (neg, s1) =
            (case s of
               [] \<Rightarrow> (False, s)
             | c # cs \<Rightarrow> if c = CHR ''-'' then (True, cs) else (False, s))
      in case s1 of
           [] \<Rightarrow> None
         | c # cs \<Rightarrow>
             if \<not> is_digit c then None
             else
               (let ip = (if c = CHR ''0'' then [c] else takeWhile is_digit s1);
                    r1 = drop (length ip) s1;
                    (fp, r2) = (case scan_fraction r1 of Some (f, r) \<Rightarrow> (f, r) | None \<Rightarrow> ([], r1));
                    sgn = (\<lambda>n. if neg then - int n else int n)
                in case scan_exponent r2 of
                     Some (ex, r3) \<Rightarrow>
                       Some (PFloat (sgn (digits_value (ip @ fp))) (ex - int (length fp)), r3)
                   | None \<Rightarrow>
                       if fp = [] then Some (PInt (sgn (digits_value ip)), r2)
                       else Some (PFloat (sgn (digits_value (ip @ fp))) (- int (length fp)), r2)))"

definition dict_of :: "(string \<times> pyval) list \<Rightarrow> (string \<times> pyval) list" where
  "dict_of pairs = foldl (\<lambda>d p. AList.update (fst p) (snd p) d) [] pairs"

definition scan_constant :: "string \<Rightarrow> (pyval \<times> string) option" where
  "scan_constant s =
     (if is_prefix ''null'' s then Some (PNone, drop 4 s)
      else if is_prefix ''true'' s then Some (PBool True, drop 4 s)
      else if is_prefix ''false'' s then Some (PBool False, drop 5 s)
      else
        (case scan_number s of
           Some r \<Rightarrow> Some r
         | None \<Rightarrow>
             if is_prefix ''NaN'' s then Some (PNaN, drop 3 s)
             else if is_prefix ''Infinity'' s then Some (PInf False, drop 8 s)
             else if is_prefix ''-Infinity'' s then Some (PInf True, drop 9 s)
             else None))"

fun scan_once :: "nat \<Rightarrow> string \<Rightarrow> (pyval \<times> string) option"
  and scan_array :: "nat \<Rightarrow> string \<Rightarrow> (pyval list \<times> string) option"
  and scan_object :: "nat \<Rightarrow> string \<Rightarrow> ((string \<times> pyval) list \<times> string) option"
where
  "scan_once 0 s = None"
| "scan_once (Suc n) [] = None"
| "scan_once (Suc n) (c # cs) =
     (if c = CHR 0x22 then
        (case scan_string cs of Some (t, r) \<Rightarrow> Some (PStr t, r) | None \<Rightarrow> None)
      else if c = CHR ''{'' then
        (case skip_ws cs of
           [] \<Rightarrow> None
         | d # ds \<Rightarrow>
             if d = CHR ''}'' then Some (PDict [], ds)
             else if d = CHR 0x22 then
               (case scan_object n ds of
                  Some (kv, r) \<Rightarrow> Some (PDict (dict_of kv), r)
                | None \<Rightarrow> None)
             else None)
      else if c = CHR ''['' then
        (case skip_ws cs of
           [] \<Rightarrow> None
         | d # ds \<Rightarrow>
             if d = CHR '']'' then Some (PList [], ds)
             else
               (case scan_array n (d # ds) of
                  Some (xs, r) \<Rightarrow> Some (PList xs, r)
                | None \<Rightarrow> None))
      else scan_constant (c # cs))"
| "scan_array 0 s = None"
| "scan_array (Suc n) s =
     (case scan_once n s of
        None \<Rightarrow> None
      | Some (v, r) \<Rightarrow>
          (case skip_ws r of
             [] \<Rightarrow> None
           | d # ds \<Rightarrow>
               if d = CHR '']'' then Some ([v], ds)
               else if d = CHR '','' then push v (scan_array n (skip_ws ds))
               else None))"
| "scan_object 0 s = None"
| "scan_object (Suc n) s =
     (case scan_string s of
        None \<Rightarrow> None
      | Some (key, r) \<Rightarrow>
          (case skip_ws r of
             [] \<Rightarrow> None
           | d # ds \<Rightarrow>
               if d \<noteq> CHR '':'' then None
               else
                 (case scan_once n (skip_ws ds) of
                    None \<Rightarrow> None
                  | Some (v, r1) \<Rightarrow>
                      (case skip_ws r1 of
                         [] \<Rightarrow> None
                       | x # xs \<Rightarrow>
                           if x = CHR ''}'' then Some ([(key, v)], xs)
                           else if x = CHR '','' then
                             (case skip_ws xs of
                                [] \<Rightarrow> None
                              | y # ys \<Rightarrow>
                                  if y = CHR 0x22 then push (key, v) (scan_object n ys)
                                  else None)
                           else None))))"

definition json_loads :: "string \<Rightarrow> pyval option" where
  "json_loads s =
     (case scan_once (2 * length s + 2) (skip_ws s) of
        Some (v, r) \<Rightarrow> if skip_ws r = [] then Some v else None
      | None \<Rightarrow> None)"

section \<open>The JSON helper\<close>

text \<open>
  \<^verbatim>\<open>safe_json_parse\<close> (content_generator.py, lines 33 to 50). The JSON decoder is a
  parameter \<open>loads\<close>: \<open>None\<close> stands for any exception \<^verbatim>\<open>json.loads\<close> raises,
  all of them caught by the two \<^verbatim>\<open>except Exception\<close> clauses. The argument is any
  Python value, since the first test is on its type.
\<close>

definition parsing_failed :: "string \<Rightarrow> pyval" where
  "parsing_failed overview =
     PDict [(''title'', PStr ''Parsing Failed''), (''overview'', PStr overview),
            (''slides'', PList []), (''conclusion'', PStr '''')]"

definition repair_span :: "(string \<Rightarrow> pyval option) \<Rightarrow> string \<Rightarrow> pyval" where
  "repair_span loads raw =
     (case brace_span raw of
        Some m \<Rightarrow>
          (case loads (strip_trailing_commas m) of
             Some v \<Rightarrow> v
           | None \<Rightarrow> parsing_failed (take 500 raw))
      | None \<Rightarrow> parsing_failed (take 500 raw))"

definition safe_json_parse :: "(string \<Rightarrow> pyval option) \<Rightarrow> pyval \<Rightarrow> pyval" where
  "safe_json_parse loads raw =
     (case raw of
        PStr s \<Rightarrow>
          (if s = [] then parsing_failed []
           else
             (case loads s of
                Some (PStr inner) \<Rightarrow>
                  (if is_prefix ''{'' (py_strip inner) then
                     (case loads inner of Some v \<Rightarrow> v | None \<Rightarrow> repair_span loads s)
                   else PStr inner)
              | Some parsed \<Rightarrow> parsed
              | None \<Rightarrow> repair_span loads s))
      | _ \<Rightarrow> parsing_failed [])"

text \<open>
  The shape the data model gives a Document: the four top-level fields, each of its
  shallow type.
\<close>

definition is_document :: "pyval \<Rightarrow> bool" where
  "is_document v =
     (case v of
        PDict kv \<Rightarrow>
          (case (map_of kv ''title'', map_of kv ''overview'',
                 map_of kv ''slides'', map_of kv ''conclusion'') of
             (Some (PStr t), Some (PStr ov), Some (PList ss), Some (PStr c)) \<Rightarrow> True
           | _ \<Rightarrow> False)
      | _ \<Rightarrow> False)"

section \<open>The generator client and the polishing pass\<close>

text \<open>
  What one call of the text-generation service gives the program:
  \<^item> \<open>CallFailed\<close>: \<^verbatim>\<open>client.chat.completions.create\<close> raises (a network or API
    failure);
  \<^item> \<open>NoContent msg\<close>: the call returns, but reading
    \<^verbatim>\<open>resp.choices[0].message.content.strip()\<close> raises an exception whose text is
    \<open>msg\<close> (no choice, no content);
  \<^item> \<open>Content c\<close>: the response carries the text \<open>c\<close>.
\<close>

datatype llm_response =
    CallFailed
  | NoContent string
  | Content string

text \<open>\<^verbatim>\<open>_call_llm_and_parse\<close> (content_generator.py, lines 62 to 74).\<close>

definition call_llm_and_parse :: "(string \<Rightarrow> pyval option) \<Rightarrow> llm_response \<Rightarrow> error + pyval" where
  "call_llm_and_parse loads resp =
     (case resp of
        CallFailed \<Rightarrow> Inl TransportError
      | NoContent msg \<Rightarrow> Inr (parsing_failed (''Bad LLM response: '' @ msg))
      | Content c \<Rightarrow> Inr (safe_json_parse loads (PStr (py_strip c))))"

text \<open>
  The value stored where a topic has no list of sources (line 127):
  \<^verbatim>\<open>web_facts[:2] if web_facts else ["General industry reports"]\<close>.
\<close>

definition backfill :: "string list option \<Rightarrow> pyval" where
  "backfill web_facts =
     (case web_facts of
        None \<Rightarrow> PList [PStr ''General industry reports'']
      | Some facts \<Rightarrow>
          if facts \<noteq> [] then PList (map PStr (take 2 facts))
          else PList [PStr ''General industry reports''])"

text \<open>Lines 126 and 127, for one topic \<open>t\<close>.\<close>

definition fix_topic :: "string list option \<Rightarrow> pyval \<Rightarrow> error + pyval" where
  "fix_topic web_facts t =
     ebind (py_contains ''sources'' t) (\<lambda>present.
     ebind (if \<not> present then Inr True
            else ebind (py_getitem t ''sources'') (\<lambda>s. Inr (\<not> is_list s))) (\<lambda>missing.
       if missing then py_setitem t ''sources'' (backfill web_facts) else Inr t))"

text \<open>Lines 120 to 128, for one slide.\<close>

definition coerce_topics :: "pyval \<Rightarrow> pyval list" where
  "coerce_topics topics =
     (case topics of
        PDict kv \<Rightarrow> [PDict kv]
      | PList ts \<Rightarrow> ts
      | _ \<Rightarrow> [])"

definition fix_slide :: "string list option \<Rightarrow> pyval \<Rightarrow> error + pyval" where
  "fix_slide web_facts slide =
     ebind (py_get slide ''topics'' (PList [])) (\<lambda>topics.
     ebind (emap (fix_topic web_facts) (coerce_topics topics)) (\<lambda>ts.
       py_setitem slide ''topics'' (PList ts)))"

text \<open>
  Lines 118 to 128: the loop over \<^verbatim>\<open>polished["slides"]\<close>. The slides of a list are
  updated in place. A dictionary or a text can be iterated too, but its elements are
  texts, on which the loop body raises; an empty one is left as it is.
\<close>

definition ensure_sources :: "string list option \<Rightarrow> pyval \<Rightarrow> error + pyval" where
  "ensure_sources web_facts polished =
     (if is_dict polished \<and> py_contains ''slides'' polished = Inr True then
        ebind (py_getitem polished ''slides'') (\<lambda>slides.
        ebind (py_iter slides) (\<lambda>items.
        ebind (emap (fix_slide web_facts) items) (\<lambda>items'.
          if is_list slides then py_setitem polished ''slides'' (PList items')
          else Inr polished)))
      else Inr polished)"

text \<open>
  \<^verbatim>\<open>_polish_content\<close> (lines 79 to 130); \<open>polish_raw\<close> is the text handed to
  the JSON helper (lines 107 to 113). The function returns at line 130; the chart block
  of lines 132 to 151 is never reached and has no part in the model.
\<close>

definition polish_raw :: "string \<Rightarrow> string" where
  "polish_raw c =
     (let raw = py_strip c
      in case brace_span raw of Some m \<Rightarrow> m | None \<Rightarrow> raw)"

definition polish_content ::
  "(string \<Rightarrow> pyval option) \<Rightarrow> string list option \<Rightarrow> pyval \<Rightarrow> llm_response \<Rightarrow> error + pyval" where
  "polish_content loads web_facts draft resp =
     (case resp of
        CallFailed \<Rightarrow> Inl TransportError
      | NoContent msg \<Rightarrow> Inr draft
      | Content c \<Rightarrow> ensure_sources web_facts (safe_json_parse loads (PStr (polish_raw c))))"

text \<open>
  \<^verbatim>\<open>generate_content\<close> (lines 156 to 231): the topic is any Python value, the API
  key is the environment variable read by \<^verbatim>\<open>_init_groq_client\<close>. The polish call
  is made only after the draft call has returned.
\<close>

definition generate_content ::
  "(string \<Rightarrow> pyval option) \<Rightarrow> pyval \<Rightarrow> string option \<Rightarrow> string list option \<Rightarrow>
   llm_response \<Rightarrow> llm_response \<Rightarrow> error + pyval" where
  "generate_content loads topic api_key web_facts draft_resp polish_resp =
     (case topic of
        PStr t \<Rightarrow>
          if py_strip t = [] then Inl ValueError
          else if api_key = None \<or> api_key = Some [] then Inl RuntimeError
          else
            ebind (call_llm_and_parse loads draft_resp) (\<lambda>draft.
              polish_content loads web_facts draft polish_resp)
      | _ \<Rightarrow> Inl ValueError)"

section \<open>The presentation engine\<close>

text \<open>
  What the engine puts on a slide, in the order of the calls. The text set by
  \<^verbatim>\<open>p.text = str(b)\<close> is \<open>Plain s\<close> for a text \<open>b\<close> and is left as
  \<open>StrOf b\<close> otherwise. The subtitle is a paragraph in bold 20 point type, a bullet
  one of level 1, the sources line one in italic 10 point type, the spacer an empty
  paragraph. A chart records its kind, its categories, the name of its series and its
  values. A table records its row and column counts and the cells written, in
  order. Calls into the presentation library are taken to succeed, except that its
  text setters raise on a value that is not a text and that \<^verbatim>\<open>table.cell\<close> raises
  on a column that the table does not have.
\<close>

datatype ptext = Plain string | StrOf pyval

datatype chart_kind = ColumnClustered | Line

datatype block =
    Subtitle string
  | Bullet ptext
  | SourcesLine string
  | Spacer
  | Chart chart_kind pyval pyval pyval
  | Table nat nat "((nat \<times> nat) \<times> ptext) list"

datatype layout = TitleLayout | ContentLayout

record slide =
  sl_layout :: layout
  sl_title :: "string option"
  sl_blocks :: "block list"

definition py_str :: "pyval \<Rightarrow> ptext" where
  "py_str v = (case v of PStr s \<Rightarrow> Plain s | _ \<Rightarrow> StrOf v)"

definition digit_char :: "nat \<Rightarrow> char" where
  "digit_char d = char_of (48 + d)"

fun show_nat :: "nat \<Rightarrow> string" where
  "show_nat n = (if n < 10 then [digit_char n] else show_nat (n div 10) @ [digit_char (n mod 10)])"

text \<open>\<^verbatim>\<open>_split_overview\<close> (presentation_engine.py, lines 43 to 46).\<close>

fun split_on :: "(char \<Rightarrow> bool) \<Rightarrow> string \<Rightarrow> string list" where
  "split_on p [] = [[]]"
| "split_on p (c # cs) =
     (if p c then [] # split_on p cs
      else (case split_on p cs of x # xs \<Rightarrow> (c # x) # xs | [] \<Rightarrow> [[c]]))"

definition split_overview :: "pyval \<Rightarrow> nat \<Rightarrow> error + string list" where
  "split_overview text max_lines =
     (case text of
        PStr t \<Rightarrow>
          (let sentences =
                 filter (\<lambda>s. s \<noteq> [])
                   (map py_strip (split_on (\<lambda>c. c = CHR ''.'' \<or> c = CHR ''?'' \<or> c = CHR ''!'') t))
           in Inr (if sentences \<noteq> [] then take max_lines sentences else [t]))
      | _ \<Rightarrow> Inl TypeError)"

text \<open>
  \<^verbatim>\<open>_render_chart\<close> (lines 49 to 70). \<open>autofix_categories\<close> is the repair of lines
  55 and 56, \<open>chart_body\<close> the body of the \<^verbatim>\<open>try\<close>, which gives the chart it adds
  or nothing when it returns at line 61; \<open>render_chart\<close> adds the handler, which
  swallows every exception.
\<close>

definition item_labels :: "nat \<Rightarrow> pyval" where
  "item_labels n = PList (map (\<lambda>i. PStr (''Item '' @ show_nat (i + 1))) [0..<n])"

definition autofix_categories :: "pyval \<Rightarrow> pyval \<Rightarrow> error + pyval" where
  "autofix_categories categories values =
     (if truthy values \<and> \<not> truthy categories
      then ebind (py_len values) (\<lambda>n. Inr (item_labels n))
      else Inr categories)"

definition chart_invalid :: "pyval \<Rightarrow> pyval \<Rightarrow> error + bool" where
  "chart_invalid categories values =
     (if \<not> truthy categories then Inr True
      else if \<not> truthy values then Inr True
      else ebind (py_len categories) (\<lambda>lc.
           ebind (py_len values) (\<lambda>lv. Inr (lc \<noteq> lv))))"

definition chart_body :: "pyval \<Rightarrow> error + block list" where
  "chart_body chart_spec =
     ebind (py_get chart_spec ''categories'' (PList [])) (\<lambda>categories0.
     ebind (py_get chart_spec ''values'' (PList [])) (\<lambda>values.
     ebind (autofix_categories categories0 values) (\<lambda>categories.
     ebind (chart_invalid categories values) (\<lambda>invalid.
       if invalid then Inr []
       else
         ebind (py_get chart_spec ''title'' (PStr ''Series'')) (\<lambda>title.
         ebind (py_get chart_spec ''type'' PNone) (\<lambda>ty.
           Inr [Chart (if ty = PStr ''bar'' then ColumnClustered else Line)
                      categories title values]))))))"

definition render_chart :: "pyval \<Rightarrow> block list" where
  "render_chart chart_spec = (case chart_body chart_spec of Inr bs \<Rightarrow> bs | Inl e \<Rightarrow> [])"

text \<open>
  \<^verbatim>\<open>_render_table\<close> (lines 74 to 88). The table is added before its cells are
  written, so an exception while writing leaves the table with the cells written so
  far; \<open>False\<close> in the result of \<open>fill_row\<close> and \<open>fill_rows\<close> says that writing
  stopped at an exception.
\<close>

fun fill_row :: "nat \<Rightarrow> nat \<Rightarrow> nat \<Rightarrow> pyval list \<Rightarrow> ((nat \<times> nat) \<times> ptext) list \<times> bool" where
  "fill_row cols i j [] = ([], True)"
| "fill_row cols i j (v # vs) =
     (if j < cols then
        (case fill_row cols i (Suc j) vs of (cells, ok) \<Rightarrow> (((i, j), py_str v) # cells, ok))
      else ([], False))"

fun fill_rows :: "nat \<Rightarrow> nat \<Rightarrow> pyval list \<Rightarrow> ((nat \<times> nat) \<times> ptext) list \<times> bool" where
  "fill_rows cols i [] = ([], True)"
| "fill_rows cols i (r # rs) =
     (case py_iter r of
        Inl e \<Rightarrow> ([], False)
      | Inr vals \<Rightarrow>
          (case fill_row cols i 0 vals of
             (cells, ok) \<Rightarrow>
               if ok then (case fill_rows cols (Suc i) rs of (others, ok') \<Rightarrow> (cells @ others, ok'))
               else (cells, False)))"

definition table_body :: "pyval \<Rightarrow> error + block list" where
  "table_body table_spec =
     ebind (py_get table_spec ''rows'' (PList [])) (\<lambda>rows.
     ebind (py_len rows) (\<lambda>nrows.
     ebind (py_get table_spec ''headers'' (PList [])) (\<lambda>headers.
     ebind (py_len headers) (\<lambda>cols.
     ebind (py_iter headers) (\<lambda>hs.
     ebind (py_iter rows) (\<lambda>rs.
       Inr [Table (nrows + 1) cols
              (fst (fill_row cols 0 0 hs) @ fst (fill_rows cols 1 rs))]))))))"

definition render_table :: "pyval \<Rightarrow> block list" where
  "render_table table_spec = (case table_body table_spec of Inr bs \<Rightarrow> bs | Inl e \<Rightarrow> [])"

text \<open>
  \<^verbatim>\<open>_render_topics\<close> (lines 91 to 139); the body shape always has a text frame here,
  being a placeholder of the layout or the text box added in its place.
  \<open>render_topic followed\<close> is one round of the loop, \<open>followed\<close> saying that the
  topic is not the last one. \<^verbatim>\<open>"; ".join(sources)\<close> needs an iterable of texts.
\<close>

fun join :: "string \<Rightarrow> string list \<Rightarrow> string" where
  "join sep [] = []"
| "join sep [x] = x"
| "join sep (x # y # ys) = x @ sep @ join sep (y # ys)"

fun the_str :: "pyval \<Rightarrow> error + string" where
  "the_str (PStr s) = Inr s"
| "the_str v = Inl TypeError"

definition py_join :: "string \<Rightarrow> pyval \<Rightarrow> error + string" where
  "py_join sep v =
     ebind (py_iter v) (\<lambda>items.
     ebind (emap the_str items) (\<lambda>strs. Inr (join sep strs)))"

definition render_topic :: "bool \<Rightarrow> pyval \<Rightarrow> error + block list" where
  "render_topic followed topic =
     ebind (py_get topic ''subtitle'' (PStr [])) (\<lambda>subtitle.
     ebind (py_get topic ''bullets'' (PList [])) (\<lambda>bullets.
     ebind (py_get topic ''sources'' (PList [])) (\<lambda>sources.
     ebind (if truthy subtitle then ebind (the_str subtitle) (\<lambda>s. Inr [Subtitle s])
            else Inr []) (\<lambda>b1.
     ebind (py_iter bullets) (\<lambda>bs.
     ebind (if truthy sources
            then ebind (py_join ''; '' sources) (\<lambda>j. Inr [SourcesLine (''Sources: '' @ j)])
            else Inr []) (\<lambda>b3.
     ebind (py_contains ''chart'' topic) (\<lambda>has_chart.
     ebind (if has_chart then ebind (py_getitem topic ''chart'') (\<lambda>c. Inr (render_chart c))
            else Inr []) (\<lambda>b4.
     ebind (py_contains ''table'' topic) (\<lambda>has_table.
     ebind (if has_table then ebind (py_getitem topic ''table'') (\<lambda>c. Inr (render_table c))
            else Inr []) (\<lambda>b5.
       Inr (b1 @ map (\<lambda>b. Bullet (py_str b)) bs @ b3 @ b4 @ b5
            @ (if followed then [Spacer] else []))))))))))))"

fun render_topics :: "pyval list \<Rightarrow> error + block list" where
  "render_topics [] = Inr []"
| "render_topics (t # ts) =
     ebind (render_topic (ts \<noteq> []) t) (\<lambda>b.
     ebind (render_topics ts) (\<lambda>bs. Inr (b @ bs)))"

text \<open>
  \<^verbatim>\<open>_safe_set_title\<close> (lines 142 to 159): the title is set to a text; for any other
  value the setter raises inside the \<^verbatim>\<open>try\<close> and the slide stays untitled.
\<close>

definition safe_set_title :: "pyval \<Rightarrow> string option" where
  "safe_set_title text = (case text of PStr s \<Rightarrow> Some s | _ \<Rightarrow> None)"

text \<open>
  \<^verbatim>\<open>create_presentation\<close> (lines 162 to 197), up to the slides it has built when it
  saves the file: the title slide, the overview slide, one slide per entry of
  \<^verbatim>\<open>slides\<close> and the conclusion slide. Loading the template and saving the file
  are the library's and are left out.
\<close>

definition bullets_topic :: "pyval list \<Rightarrow> pyval" where
  "bullets_topic bullets =
     PDict [(''subtitle'', PStr []), (''bullets'', PList bullets), (''sources'', PList [])]"

definition content_slide :: "pyval \<Rightarrow> error + slide" where
  "content_slide slide_data =
     ebind (py_get slide_data ''title'' (PStr ''Slide'')) (\<lambda>title.
     ebind (py_get slide_data ''topics'' (PList [])) (\<lambda>topics.
     ebind (render_topics (case topics of PList ts \<Rightarrow> ts | _ \<Rightarrow> [topics])) (\<lambda>blocks.
       Inr \<lparr>sl_layout = ContentLayout, sl_title = safe_set_title title, sl_blocks = blocks\<rparr>)))"

definition conclusion_slides :: "pyval \<Rightarrow> error + slide list" where
  "conclusion_slides content =
     ebind (py_get content ''conclusion'' PNone) (\<lambda>conclusion.
       if truthy conclusion then
         ebind (py_getitem content ''conclusion'') (\<lambda>c.
         ebind (render_topics [bullets_topic [c]]) (\<lambda>blocks.
           Inr [\<lparr>sl_layout = ContentLayout, sl_title = safe_set_title (PStr ''Conclusion''),
                 sl_blocks = blocks\<rparr>]))
       else Inr [])"

definition create_presentation :: "pyval \<Rightarrow> error + slide list" where
  "create_presentation content =
     ebind (py_get content ''title'' (PStr ''Untitled Presentation'')) (\<lambda>title.
     ebind (py_get content ''overview'' (PStr [])) (\<lambda>overview.
     ebind (split_overview overview 3) (\<lambda>overview_lines.
     ebind (render_topics [bullets_topic (map PStr overview_lines)]) (\<lambda>overview_blocks.
     ebind (py_get content ''slides'' (PList [])) (\<lambda>slides.
     ebind (py_iter slides) (\<lambda>items.
     ebind (emap content_slide items) (\<lambda>content_slides.
     ebind (conclusion_slides content) (\<lambda>last_slides.
       Inr (\<lparr>sl_layout = TitleLayout, sl_title = safe_set_title title, sl_blocks = []\<rparr>
            # \<lparr>sl_layout = ContentLayout, sl_title = safe_set_title (PStr ''Overview''),
                 sl_blocks = overview_blocks\<rparr>
            # content_slides @ last_slides)))))))))"

text \<open>
  The run after the draft call (main.py, lines 32 to 36, with \<^verbatim>\<open>generate_content\<close>
  past line 228): polishing, then the slides.
\<close>

definition after_draft ::
  "(string \<Rightarrow> pyval option) \<Rightarrow> string list option \<Rightarrow> pyval \<Rightarrow> llm_response \<Rightarrow> error + slide list" where
  "after_draft loads web_facts draft polish_resp =
     ebind (polish_content loads web_facts draft polish_resp) create_presentation"

section \<open>Reading documents\<close>

text \<open>
  The slides of a document, the topics of a slide as lines 120 to 124 read them (a
  single topic object counts as a list of one, anything else that is not a list as
  none), and the chart of a topic.
\<close>

definition doc_slides :: "pyval \<Rightarrow> pyval list" where
  "doc_slides d =
     (case d of
        PDict kv \<Rightarrow> (case map_of kv ''slides'' of Some (PList ss) \<Rightarrow> ss | _ \<Rightarrow> [])
      | _ \<Rightarrow> [])"

definition slide_topics :: "pyval \<Rightarrow> pyval list" where
  "slide_topics s =
     (case s of
        PDict kv \<Rightarrow> (case map_of kv ''topics'' of Some v \<Rightarrow> coerce_topics v | None \<Rightarrow> [])
      | _ \<Rightarrow> [])"

definition topic_chart :: "pyval \<Rightarrow> pyval option" where
  "topic_chart t = (case t of PDict kv \<Rightarrow> map_of kv ''chart'' | _ \<Rightarrow> None)"

definition charts_of :: "pyval \<Rightarrow> pyval option list list" where
  "charts_of d = map (\<lambda>s. map topic_chart (slide_topics s)) (doc_slides d)"

text \<open>
  A topic whose \<^verbatim>\<open>sources\<close> field is a list, and the rule of the sources backfill
  for one topic: a topic with a list of sources, empty or not, is kept; any other topic
  object gets the backfill value.
\<close>

definition has_list_sources :: "pyval \<Rightarrow> bool" where
  "has_list_sources t =
     (case t of
        PDict kv \<Rightarrow> (case map_of kv ''sources'' of Some (PList xs) \<Rightarrow> True | _ \<Rightarrow> False)
      | _ \<Rightarrow> False)"

definition with_sources :: "string list option \<Rightarrow> pyval \<Rightarrow> pyval" where
  "with_sources web_facts t =
     (case t of
        PDict kv \<Rightarrow>
          if has_list_sources t then t
          else PDict (AList.update ''sources'' (backfill web_facts) kv)
      | _ \<Rightarrow> t)"

text \<open>
  The invariant the data model states for the sources of a topic: a list that is not
  empty.
\<close>

definition has_nonempty_sources :: "pyval \<Rightarrow> bool" where
  "has_nonempty_sources t =
     (case t of
        PDict kv \<Rightarrow> (case map_of kv ''sources'' of Some (PList xs) \<Rightarrow> xs \<noteq> [] | _ \<Rightarrow> False)
      | _ \<Rightarrow> False)"

text \<open>
  Documents of the shape of the data model, every field optional: a topic is an object
  whose subtitle is a text, whose bullets are a list and whose sources are a list of
  texts; a slide is an object whose topics are a list of topics or one topic; a
  document is an object whose overview is a text and whose slides are a list of slides.
  Charts and tables are not constrained.
\<close>

definition topic_shape :: "pyval \<Rightarrow> bool" where
  "topic_shape t =
     (case t of
        PDict kv \<Rightarrow>
          (case map_of kv ''subtitle'' of None \<Rightarrow> True | Some v \<Rightarrow> is_str v) \<and>
          (case map_of kv ''bullets'' of None \<Rightarrow> True | Some v \<Rightarrow> is_list v) \<and>
          (case map_of kv ''sources'' of
             None \<Rightarrow> True
           | Some (PList xs) \<Rightarrow> list_all is_str xs
           | Some _ \<Rightarrow> False)
      | _ \<Rightarrow> False)"

definition slide_shape :: "pyval \<Rightarrow> bool" where
  "slide_shape s =
     (case s of
        PDict kv \<Rightarrow>
          (case map_of kv ''topics'' of
             None \<Rightarrow> True
           | Some (PList ts) \<Rightarrow> list_all topic_shape ts
           | Some (PDict t) \<Rightarrow> topic_shape (PDict t)
           | Some _ \<Rightarrow> False)
      | _ \<Rightarrow> False)"

definition deck_shape :: "pyval \<Rightarrow> bool" where
  "deck_shape d =
     (case d of
        PDict kv \<Rightarrow>
          (case map_of kv ''overview'' of None \<Rightarrow> True | Some v \<Rightarrow> is_str v) \<and>
          (case map_of kv ''slides'' of
             None \<Rightarrow> True
           | Some (PList ss) \<Rightarrow> list_all slide_shape ss
           | Some _ \<Rightarrow> False)
      | _ \<Rightarrow> False)"

section \<open>Basic facts\<close>

lemma ebind_Inr [simp]: "ebind (Inr v) f = f v"
  by (simp add: ebind_def)

lemma ebind_Inl [simp]: "ebind (Inl e) f = Inl e"
  by (simp add: ebind_def)

lemma ebind_eq_Inr: "ebind m f = Inr y \<longleftrightarrow> (\<exists>v. m = Inr v \<and> f v = Inr y)"
  by (cases m) simp_all

lemma emap_length: "emap f xs = Inr ys \<Longrightarrow> length ys = length xs"
  by (induction xs arbitrary: ys) (auto split: sum.splits)

section \<open>The JSON decoder: the counter is large enough\<close>

lemma push_Some: "push x res = Some (ys, r) \<longleftrightarrow> (\<exists>xs. res = Some (xs, r) \<and> ys = x # xs)"
  by (auto simp: push_def split: option.splits)

lemma skip_ws_length: "length (skip_ws s) \<le> length s"
  by (simp add: skip_ws_def length_dropWhile_le)

lemma skip_ws_Cons: "skip_ws s = d # ds \<Longrightarrow> length ds < length s"
  using skip_ws_length [of s] by simp

lemma scan_string_shorter: "scan_string s = Some (t, r) \<Longrightarrow> length r < length s"
proof (induction s arbitrary: t rule: length_induct)
  case (1 s)
  show ?case
  proof (cases s)
    case Nil
    with 1(2) show ?thesis by simp
  next
    case (Cons c cs)
    have ih: "\<And>s' t'. length s' < length s \<Longrightarrow> scan_string s' = Some (t', r) \<Longrightarrow> length r < length s'"
      using 1(1) by blast
    from 1(2) Cons show ?thesis
      by (auto simp: push_Some split: if_splits list.splits option.splits dest!: ih [rotated])
  qed
qed

lemma scan_fraction_shorter: "scan_fraction s = Some (f, r) \<Longrightarrow> length r < length s"
  by (auto simp: scan_fraction_def less_Suc_eq_le length_dropWhile_le
      split: list.splits if_splits)

lemma scan_exponent_shorter: "scan_exponent s = Some (e, r) \<Longrightarrow> length r < length s"
proof -
  have a: "\<And>xs. length (dropWhile is_digit xs) \<le> length xs"
    by (rule length_dropWhile_le)
  assume "scan_exponent s = Some (e, r)"
  then show ?thesis
    using a
    by (auto simp: scan_exponent_def less_Suc_eq_le le_SucI
        split: list.splits if_splits prod.splits)
qed


lemma skip_ws_less: "length r < length (skip_ws s) \<Longrightarrow> length r < length s"
  using skip_ws_length [of s] by simp

lemma scan_number_shorter:
  assumes "scan_number s = Some (v, r)"
  shows "length r < length s"
proof -
  obtain neg s1 where ns: "(case s of [] \<Rightarrow> (False, s)
      | c # cs \<Rightarrow> if c = CHR ''-'' then (True, cs) else (False, s)) = (neg, s1)"
    by (cases "(case s of [] \<Rightarrow> (False, s)
      | c # cs \<Rightarrow> if c = CHR ''-'' then (True, cs) else (False, s))") auto
  then have s1: "length s1 \<le> length s"
    by (auto split: list.splits if_splits)
  from assms ns obtain c cs where c: "s1 = c # cs" and dig: "is_digit c"
    by (cases s1) (auto simp: scan_number_def split: if_splits)
  define ip where "ip = (if c = CHR ''0'' then [c] else takeWhile is_digit (c # cs))"
  define r1 where "r1 = drop (length ip) (c # cs)"
  have "ip \<noteq> []" using dig by (simp add: ip_def)
  then have r1: "length r1 < length s1" using c by (cases ip) (simp_all add: r1_def)
  obtain fp r2 where fr: "(case scan_fraction r1 of Some (f, r) \<Rightarrow> (f, r) | None \<Rightarrow> ([], r1)) = (fp, r2)"
    by (cases "(case scan_fraction r1 of Some (f, r) \<Rightarrow> (f, r) | None \<Rightarrow> ([], r1))") auto
  then have r2: "length r2 \<le> length r1"
    by (auto split: option.splits dest: scan_fraction_shorter)
  have "scan_number s =
      (case scan_exponent r2 of
         Some (ex, r3) \<Rightarrow>
           Some (PFloat (if neg then - int (digits_value (ip @ fp)) else int (digits_value (ip @ fp)))
                   (ex - int (length fp)), r3)
       | None \<Rightarrow>
           if fp = [] then Some (PInt (if neg then - int (digits_value ip) else int (digits_value ip)), r2)
           else Some (PFloat (if neg then - int (digits_value (ip @ fp)) else int (digits_value (ip @ fp)))
                        (- int (length fp)), r2))"
    using ns dig fr unfolding scan_number_def c ip_def r1_def
    by (simp add: Let_def)
  with assms have "r = r2 \<or> (\<exists>e. scan_exponent r2 = Some (e, r))"
    by (auto split: option.splits if_splits)
  then have "length r \<le> length r2"
    by (auto dest: scan_exponent_shorter)
  with r2 r1 s1 show ?thesis by simp
qed

lemma is_prefix_length: "is_prefix p s \<Longrightarrow> length p \<le> length s"
  by (induction p s rule: is_prefix.induct) simp_all

lemma is_prefix_drop: "is_prefix p s \<Longrightarrow> p \<noteq> [] \<Longrightarrow> length (drop (length p) s) < length s"
  using is_prefix_length [of p s] by (cases p) auto

lemma scan_constant_shorter:
  assumes "scan_constant s = Some (v, r)"
  shows "length r < length s"
  using assms
    is_prefix_drop [of "''null''" s] is_prefix_drop [of "''true''" s]
    is_prefix_drop [of "''false''" s] is_prefix_drop [of "''NaN''" s]
    is_prefix_drop [of "''Infinity''" s] is_prefix_drop [of "''-Infinity''" s]
  by (auto simp: scan_constant_def split: if_splits option.splits dest: scan_number_shorter)

lemma scan_consumes:
  "(\<forall>s v r. scan_once n s = Some (v, r) \<longrightarrow> length r < length s)
   \<and> (\<forall>s vs r. scan_array n s = Some (vs, r) \<longrightarrow> length r < length s)
   \<and> (\<forall>s kv r. scan_object n s = Some (kv, r) \<longrightarrow> length r < length s)"
proof (induction n)
  case 0
  show ?case by simp
next
  case (Suc n)
  have once: "\<And>s v r. scan_once n s = Some (v, r) \<Longrightarrow> length r < length s"
    and arr: "\<And>s vs r. scan_array n s = Some (vs, r) \<Longrightarrow> length r < length s"
    and obj: "\<And>s kv r. scan_object n s = Some (kv, r) \<Longrightarrow> length r < length s"
    using Suc by blast+
  have "length r < length s" if "scan_once (Suc n) s = Some (v, r)" for s v r
  proof (cases s)
    case Nil
    with that show ?thesis by simp
  next
    case (Cons c cs)
    with that show ?thesis
      by (auto split: if_splits option.splits list.splits
          dest!: scan_string_shorter skip_ws_Cons arr obj scan_constant_shorter)
  qed
  moreover have "length r < length s" if "scan_array (Suc n) s = Some (vs, r)" for s vs r
    using that
    by (auto simp: push_Some split: if_splits option.splits list.splits
        dest!: once skip_ws_Cons arr skip_ws_less)
  moreover have "length r < length s" if "scan_object (Suc n) s = Some (kv, r)" for s kv r
    using that
    by (auto simp: push_Some split: if_splits option.splits list.splits
        dest!: once skip_ws_Cons obj scan_string_shorter skip_ws_less)
  ultimately show ?case by blast
qed


lemmas scan_once_consumes = scan_consumes [THEN conjunct1, rule_format]

lemma scan_stable:
  "(\<forall>s. 2 * length s < n \<longrightarrow> scan_once (Suc n) s = scan_once n s)
   \<and> (\<forall>s. 2 * length s + 1 < n \<longrightarrow> scan_array (Suc n) s = scan_array n s)
   \<and> (\<forall>s. 2 * length s < n \<longrightarrow> scan_object (Suc n) s = scan_object n s)"
proof (induction n)
  case 0
  show ?case by simp
next
  case (Suc n)
  have once: "\<And>s. 2 * length s < n \<Longrightarrow> scan_once (Suc n) s = scan_once n s"
    and arr: "\<And>s. 2 * length s + 1 < n \<Longrightarrow> scan_array (Suc n) s = scan_array n s"
    and obj: "\<And>s. 2 * length s < n \<Longrightarrow> scan_object (Suc n) s = scan_object n s"
    using Suc by blast+
  have "scan_once (Suc (Suc n)) s = scan_once (Suc n) s" if b: "2 * length s < Suc n" for s
  proof (cases s)
    case Nil
    then show ?thesis by simp
  next
    case (Cons c cs)
    have o: "scan_object (Suc n) ds = scan_object n ds" if "skip_ws cs = d # ds" for d ds
      using skip_ws_Cons [OF that] b Cons by (intro obj) simp
    have a: "scan_array (Suc n) (d # ds) = scan_array n (d # ds)" if "skip_ws cs = d # ds" for d ds
      using skip_ws_Cons [OF that] b Cons by (intro arr) simp
    show ?thesis
      unfolding Cons scan_once.simps(3) [of "Suc n" c cs] scan_once.simps(3) [of n c cs]
      by (auto simp: o a split: list.splits
          simp del: scan_once.simps scan_array.simps scan_object.simps)
  qed
  moreover
  have "scan_array (Suc (Suc n)) s = scan_array (Suc n) s" if b: "2 * length s + 1 < Suc n" for s
  proof -
    from b have o: "scan_once (Suc n) s = scan_once n s" by (intro once) simp
    have a: "scan_array (Suc n) (skip_ws ds) = scan_array n (skip_ws ds)"
      if "scan_once n s = Some (v, r)" and "skip_ws r = d # ds" for v r d ds
      using scan_once_consumes [OF that(1)] skip_ws_Cons [OF that(2)] skip_ws_length [of ds] b
      by (intro arr) simp
    show ?thesis
      unfolding scan_array.simps(2) [of "Suc n" s] scan_array.simps(2) [of n s] o
      by (auto simp: a split: option.splits list.splits
          simp del: scan_once.simps scan_array.simps scan_object.simps)
  qed
  moreover
  have "scan_object (Suc (Suc n)) s = scan_object (Suc n) s" if b: "2 * length s < Suc n" for s
  proof -
    have o: "scan_once (Suc n) (skip_ws ds) = scan_once n (skip_ws ds)"
      if "scan_string s = Some (key, r)" and "skip_ws r = d # ds" for key r d ds
      using scan_string_shorter [OF that(1)] skip_ws_Cons [OF that(2)] skip_ws_length [of ds] b
      by (intro once) simp
    have p: "scan_object (Suc n) ys = scan_object n ys"
      if "scan_string s = Some (key, r)" and "skip_ws r = d # ds"
        and "scan_once n (skip_ws ds) = Some (v, r1)" and "skip_ws r1 = x # xs"
        and "skip_ws xs = y # ys" for key r d ds v r1 x xs y ys
      using scan_string_shorter [OF that(1)] skip_ws_Cons [OF that(2)] skip_ws_length [of ds]
        scan_once_consumes [OF that(3)] skip_ws_Cons [OF that(4)] skip_ws_Cons [OF that(5)] b
      by (intro obj) simp
    show ?thesis
      unfolding scan_object.simps(2) [of "Suc n" s] scan_object.simps(2) [of n s]
      by (auto simp: o p split: option.splits list.splits
          simp del: scan_once.simps scan_array.simps scan_object.simps)
  qed
  ultimately show ?case by blast
qed

lemma scan_once_fuel: "2 * length s < n \<Longrightarrow> scan_once (n + k) s = scan_once n s"
proof (induction k)
  case 0
  show ?case by simp
next
  case (Suc k)
  from Suc.prems have "2 * length s < n + k" by simp
  with scan_stable [of "n + k"] have "scan_once (Suc (n + k)) s = scan_once (n + k) s" by blast
  with Suc show ?case by simp
qed

lemma json_loads_fuel:
  assumes "2 * length s + 2 \<le> n"
  shows "json_loads s =
           (case scan_once n (skip_ws s) of
              Some (v, r) \<Rightarrow> if skip_ws r = [] then Some v else None
            | None \<Rightarrow> None)"
proof -
  from assms obtain k where n: "n = (2 * length s + 2) + k"
    by (auto simp: le_iff_add)
  have "2 * length (skip_ws s) < 2 * length s + 2"
    using skip_ws_length [of s] by simp
  from scan_once_fuel [OF this, of k] show ?thesis
    by (simp add: json_loads_def n)
qed

section \<open>The JSON helper: what it returns\<close>

lemma is_document_parsing_failed: "is_document (parsing_failed ov)"
  by (simp add: is_document_def parsing_failed_def)

lemma repair_span_result:
  "(\<exists>ov. repair_span loads s = parsing_failed ov) \<or> (\<exists>t. loads t = Some (repair_span loads s))"
  by (auto simp: repair_span_def split: option.splits)







section \<open>Charts\<close>



section \<open>Failures of the generator calls\<close>

text \<open>
  Claim C5, as amended. With a valid topic and API key: when the polish call returns a
  response whose content is missing or malformed, \<open>generate_content\<close> returns the draft,
  the very document that \<open>call_llm_and_parse\<close> produced, neither failing nor changing
  it; when the draft call itself raises, \<open>generate_content\<close> fails with that error
  whatever the polish call would do; and when the draft call returns a response whose
  content is missing or malformed, nothing fails: the draft is the sentinel document
  that carries the error text, and the polish call goes on from it.
\<close>

theorem polish_failure_returns_draft:
  assumes "py_strip t \<noteq> []" and "k \<noteq> []"
  shows "(call_llm_and_parse loads draft_resp = Inr draft \<longrightarrow>
            generate_content loads (PStr t) (Some k) facts draft_resp (NoContent msg) = Inr draft)
         \<and> generate_content loads (PStr t) (Some k) facts CallFailed polish_resp
             = Inl TransportError
         \<and> generate_content loads (PStr t) (Some k) facts (NoContent msg) polish_resp
             = polish_content loads facts (parsing_failed (''Bad LLM response: '' @ msg))
                 polish_resp"
  using assms by (simp add: generate_content_def polish_content_def call_llm_and_parse_def)

theorem polish_failure_returns_draft_witness:
  "generate_content json_loads (PStr ''AI'') (Some ''key'') None (Content ''{\"title\":\"T\"}'')
       (NoContent ''no choices'') = Inr (PDict [(''title'', PStr ''T'')])
   \<and> generate_content json_loads (PStr ''AI'') (Some ''key'') None CallFailed (Content ''{}'')
       = Inl TransportError
   \<and> generate_content json_loads (PStr ''AI'') (Some ''key'') None (NoContent ''no choices'')
         (NoContent ''no choices'')
       = Inr (parsing_failed ''Bad LLM response: no choices'')"
proof -
  have a: "py_strip ''AI'' \<noteq> []" by code_simp
  have b: "call_llm_and_parse json_loads (Content ''{\"title\":\"T\"}'') = Inr (PDict [(''title'', PStr ''T'')])"
    by code_simp
  have c: "polish_content json_loads None (parsing_failed ''Bad LLM response: no choices'')
             (NoContent ''no choices'') = Inr (parsing_failed ''Bad LLM response: no choices'')"
    by (simp add: polish_content_def)
  from polish_failure_returns_draft [OF a, of "''key''" json_loads "Content ''{\"title\":\"T\"}''"
      "PDict [(''title'', PStr ''T'')]" None "''no choices''" "Content ''{}''"]
    polish_failure_returns_draft [OF a, of "''key''" json_loads "Content ''{\"title\":\"T\"}''"
      "PDict [(''title'', PStr ''T'')]" None "''no choices''" "NoContent ''no choices''"] b c
  show ?thesis by simp
qed

text \<open>
  The claim as stated fails for the draft phase: a draft response without content does
  not fail the run, which goes on to return the polished document.
\<close>

theorem draft_failure_absorbed:
  "generate_content json_loads (PStr ''AI'') (Some ''key'') None (NoContent ''no choices'')
     (Content ''{\"title\":\"T\"}'') = Inr (PDict [(''title'', PStr ''T'')])"
  by code_simp

text \<open>
  For the record, a polish call that itself raises is as fatal as a draft call that
  raises.
\<close>

lemma polish_call_failure_propagates:
  "polish_content loads facts draft CallFailed = Inl TransportError"
  by (simp add: polish_content_def)

section \<open>The conclusion slide\<close>

lemma render_single_bullet:
  "render_topics [bullets_topic [c]] = Inr [Bullet (py_str c)]"
  by (simp add: bullets_topic_def render_topic_def)

lemma conclusion_slides_dict:
  "conclusion_slides (PDict kv) =
     Inr (case map_of kv ''conclusion'' of
            Some v \<Rightarrow>
              if truthy v then
                [\<lparr>sl_layout = ContentLayout, sl_title = Some ''Conclusion'',
                  sl_blocks = [Bullet (py_str v)]\<rparr>]
              else []
          | None \<Rightarrow> [])"
proof (cases "map_of kv ''conclusion''")
  case None
  then show ?thesis by (simp add: conclusion_slides_def)
next
  case (Some v)
  then show ?thesis
    by (simp add: conclusion_slides_def render_single_bullet safe_set_title_def
        del: render_topics.simps)
qed



section \<open>The sources backfill\<close>

text \<open>
  What the loop of lines 118 to 128 does to a topic, to a slide and to a document: it
  succeeds on topic objects only, and then gives each topic the value of
  \<open>with_sources\<close>.
\<close>

lemma fix_topic_dict:
  "fix_topic facts (PDict kv) = Inr (with_sources facts (PDict kv))"
proof (cases "map_of kv ''sources''")
  case None
  then show ?thesis
    by (simp add: fix_topic_def with_sources_def has_list_sources_def)
next
  case (Some v)
  then show ?thesis
    by (cases v) (simp_all add: fix_topic_def with_sources_def has_list_sources_def)
qed

lemma fix_topic_not_dict: "\<not> is_dict t \<Longrightarrow> \<exists>e. fix_topic facts t = Inl e"
  by (cases t) (simp_all add: fix_topic_def)

lemma fix_topic_Inr:
  "fix_topic facts t = Inr t' \<Longrightarrow> is_dict t \<and> t' = with_sources facts t"
proof (cases "is_dict t")
  case True
  assume "fix_topic facts t = Inr t'"
  with True show ?thesis by (cases t) (simp_all add: fix_topic_dict)
next
  case False
  assume "fix_topic facts t = Inr t'"
  with fix_topic_not_dict [OF False, of facts] show ?thesis by auto
qed

lemma emap_Inr_map:
  assumes "\<And>x y. f x = Inr y \<Longrightarrow> P x \<and> y = g x"
  shows "emap f xs = Inr ys \<Longrightarrow> list_all P xs \<and> ys = map g xs"
proof (induction xs arbitrary: ys)
  case Nil
  then show ?case by simp
next
  case (Cons x xs)
  from Cons.prems obtain y ys' where y: "f x = Inr y" and ys': "emap f xs = Inr ys'"
    and ys: "ys = y # ys'"
    by (auto split: sum.splits)
  from assms [OF y] Cons.IH [OF ys'] ys show ?case by simp
qed

lemma emap_fixed:
  assumes "\<And>x. P x \<Longrightarrow> f x = Inr x"
  shows "list_all P xs \<Longrightarrow> emap f xs = Inr xs"
  by (induction xs) (simp_all add: assms)

lemma has_list_sources_with_sources:
  "is_dict t \<Longrightarrow> has_list_sources (with_sources facts t)"
  by (cases t)
     (auto simp: with_sources_def has_list_sources_def backfill_def AList.update_conv'
           split: option.splits)

lemma with_sources_fixed: "has_list_sources t \<Longrightarrow> with_sources facts t = t"
  by (cases t) (simp_all add: with_sources_def has_list_sources_def)

lemma topic_chart_with_sources: "topic_chart (with_sources facts t) = topic_chart t"
  by (cases t) (simp_all add: with_sources_def topic_chart_def AList.update_conv')

lemma fix_topics_Inr:
  "emap (fix_topic facts) ts = Inr ts' \<Longrightarrow>
     list_all is_dict ts \<and> ts' = map (with_sources facts) ts"
  by (rule emap_Inr_map [where f = "fix_topic facts"]) (rule fix_topic_Inr)

lemma fix_slide_Inr:
  assumes "fix_slide facts s = Inr s'"
  shows "\<exists>kv. s = PDict kv \<and> list_all is_dict (slide_topics s)
           \<and> s' = PDict (AList.update ''topics''
                           (PList (map (with_sources facts) (slide_topics s))) kv)"
proof (cases s)
  case (PDict kv)
  have st: "slide_topics s =
      coerce_topics (case map_of kv ''topics'' of Some v \<Rightarrow> v | None \<Rightarrow> PList [])"
    using PDict by (simp add: slide_topics_def coerce_topics_def split: option.splits)
  from assms PDict obtain ts where
    ts: "emap (fix_topic facts) (slide_topics s) = Inr ts"
    and s': "s' = PDict (AList.update ''topics'' (PList ts) kv)"
    unfolding fix_slide_def st by (auto simp: ebind_eq_Inr)
  from fix_topics_Inr [OF ts] s' PDict show ?thesis by simp
qed (use assms in \<open>simp_all add: fix_slide_def\<close>)

lemma slide_topics_update:
  "slide_topics (PDict (AList.update ''topics'' (PList ts) kv)) = ts"
  by (simp add: slide_topics_def coerce_topics_def AList.update_conv')

lemma fix_slide_topics:
  assumes "fix_slide facts s = Inr s'"
  shows "is_dict s \<and> list_all is_dict (slide_topics s)
         \<and> slide_topics s' = map (with_sources facts) (slide_topics s)"
  using fix_slide_Inr [OF assms] by (auto simp: slide_topics_update)

lemma fix_slides_topics:
  "emap (fix_slide facts) ss = Inr ss' \<Longrightarrow>
     list_all (\<lambda>s. is_dict s \<and> list_all is_dict (slide_topics s)) ss
     \<and> map slide_topics ss' = map (\<lambda>s. map (with_sources facts) (slide_topics s)) ss"
proof (induction ss arbitrary: ss')
  case Nil
  then show ?case by simp
next
  case (Cons s ss)
  from Cons.prems obtain t ts where t: "fix_slide facts s = Inr t"
    and ts: "emap (fix_slide facts) ss = Inr ts" and ss': "ss' = t # ts"
    by (auto split: sum.splits)
  from fix_slide_topics [OF t] Cons.IH [OF ts] ss' show ?case by simp
qed

lemma ensure_sources_Inr:
  assumes "ensure_sources facts d = Inr d'"
  shows "(d' = d \<and> doc_slides d = [])
       \<or> (\<exists>kv ss'. d = PDict kv \<and> emap (fix_slide facts) (doc_slides d) = Inr ss'
            \<and> d' = PDict (AList.update ''slides'' (PList ss') kv))"
proof (cases d)
  case (PDict kv)
  show ?thesis
  proof (cases "map_of kv ''slides''")
    case None
    with assms PDict have "d' = d" by (simp add: ensure_sources_def)
    moreover from None PDict have "doc_slides d = []" by (simp add: doc_slides_def)
    ultimately show ?thesis by simp
  next
    case (Some slides)
    show ?thesis
    proof (cases "is_list slides")
      case True
      then obtain ss where ss: "slides = PList ss" by (cases slides) simp_all
      with assms PDict Some show ?thesis
        by (auto simp: ensure_sources_def doc_slides_def ebind_eq_Inr)
    next
      case False
      with assms PDict Some have "d' = d"
        by (auto simp: ensure_sources_def ebind_eq_Inr)
      moreover from False PDict Some have "doc_slides d = []"
        by (cases slides) (simp_all add: doc_slides_def)
      ultimately show ?thesis by simp
    qed
  qed
qed (use assms in \<open>auto simp: ensure_sources_def doc_slides_def\<close>)

lemma doc_slides_update:
  "doc_slides (PDict (AList.update ''slides'' (PList ss) kv)) = ss"
  by (simp add: doc_slides_def AList.update_conv')

lemma ensure_sources_topics:
  assumes "ensure_sources facts d = Inr d'"
  shows "list_all (\<lambda>s. list_all is_dict (slide_topics s)) (doc_slides d)
       \<and> map slide_topics (doc_slides d')
           = map (\<lambda>s. map (with_sources facts) (slide_topics s)) (doc_slides d)"
proof -
  from ensure_sources_Inr [OF assms] show ?thesis
  proof
    assume "d' = d \<and> doc_slides d = []"
    then show ?thesis by simp
  next
    assume "\<exists>kv ss'. d = PDict kv \<and> emap (fix_slide facts) (doc_slides d) = Inr ss'
            \<and> d' = PDict (AList.update ''slides'' (PList ss') kv)"
    then obtain kv ss' where ss': "emap (fix_slide facts) (doc_slides d) = Inr ss'"
      and d': "d' = PDict (AList.update ''slides'' (PList ss') kv)"
      by blast
    from fix_slides_topics [OF ss'] d' show ?thesis
      by (simp add: doc_slides_update list_all_iff)
  qed
qed

text \<open>
  Claim C10. Whenever the polishing stage returns for a response with content, every
  topic of every slide of its result has the chart field, present or absent, that the
  same topic has in the value parsed from the polish response: the stage returns at
  line 130 and the chart block after it never runs.
\<close>

theorem polish_leaves_charts:
  assumes "polish_content loads facts draft (Content c) = Inr d'"
  shows "charts_of d' = charts_of (safe_json_parse loads (PStr (polish_raw c)))"
proof -
  from assms have "ensure_sources facts (safe_json_parse loads (PStr (polish_raw c))) = Inr d'"
    by (simp add: polish_content_def)
  from ensure_sources_topics [OF this]
  have "map (map topic_chart) (map slide_topics (doc_slides d'))
        = map (map topic_chart)
            (map (\<lambda>s. map (with_sources facts) (slide_topics s))
               (doc_slides (safe_json_parse loads (PStr (polish_raw c)))))"
    by simp
  then show ?thesis
    by (simp add: charts_of_def topic_chart_with_sources comp_def)
qed


theorem polish_leaves_charts_witness:
  "charts_of (PDict [(''slides'', PList [PDict [(''topics'',
       PList [PDict [(''chart'', PDict [(''values'', PList [PInt 1])]),
                     (''sources'', PList [PStr ''General industry reports''])]])]])])
   = charts_of (safe_json_parse json_loads
       (PStr (polish_raw ''{\"slides\":[{\"topics\":[{\"chart\":{\"values\":[1]}}]}]}'')))"
proof -
  have a: "polish_content json_loads None PNone
             (Content ''{\"slides\":[{\"topics\":[{\"chart\":{\"values\":[1]}}]}]}'')
           = Inr (PDict [(''slides'', PList [PDict [(''topics'',
               PList [PDict [(''chart'', PDict [(''values'', PList [PInt 1])]),
                             (''sources'', PList [PStr ''General industry reports''])]])]])])"
    by code_simp
  show ?thesis by (rule polish_leaves_charts [OF a])
qed

lemma list_all_has_list_sources:
  "list_all is_dict ts \<Longrightarrow> list_all has_list_sources (map (with_sources facts) ts)"
  by (induction ts) (simp_all add: has_list_sources_with_sources)

text \<open>
  Claim C3, as amended. After the backfill every topic of every slide has a sources
  field that is a list: a topic whose sources are a list, empty or not, is kept as it
  is, and a topic whose sources are absent or not a list gets the first two facts, or
  the one label \<^verbatim>\<open>General industry reports\<close> when there is no fact.
\<close>

theorem sources_backfill:
  assumes "ensure_sources facts d = Inr d'"
  shows "list_all (\<lambda>s. list_all has_list_sources (slide_topics s)) (doc_slides d')
       \<and> map slide_topics (doc_slides d')
           = map (\<lambda>s. map (with_sources facts) (slide_topics s)) (doc_slides d)
       \<and> backfill (Some [''F1'', ''F2'', ''F3'']) = PList [PStr ''F1'', PStr ''F2'']
       \<and> backfill (Some []) = PList [PStr ''General industry reports'']"
proof -
  from ensure_sources_topics [OF assms]
  have dicts: "list_all (\<lambda>s. list_all is_dict (slide_topics s)) (doc_slides d)"
    and eq: "map slide_topics (doc_slides d')
             = map (\<lambda>s. map (with_sources facts) (slide_topics s)) (doc_slides d)"
    by simp_all
  from dicts
  have "list_all (list_all has_list_sources)
          (map (\<lambda>s. map (with_sources facts) (slide_topics s)) (doc_slides d))"
    by (induction "doc_slides d") (simp_all add: list_all_iff has_list_sources_with_sources)
  then have "list_all (list_all has_list_sources) (map slide_topics (doc_slides d'))"
    by (simp only: eq)
  then have "list_all (\<lambda>s. list_all has_list_sources (slide_topics s)) (doc_slides d')"
    by (simp add: list_all_iff)
  with eq show ?thesis by (simp add: backfill_def)
qed

theorem sources_backfill_witness:
  "list_all (\<lambda>s. list_all has_list_sources (slide_topics s))
     (doc_slides (PDict [(''slides'', PList [PDict [(''topics'',
        PList [PDict [(''subtitle'', PStr ''S''), (''sources'', PList [PStr ''F1'', PStr ''F2''])]])]])]))
   \<and> map slide_topics
       (doc_slides (PDict [(''slides'', PList [PDict [(''topics'',
          PList [PDict [(''subtitle'', PStr ''S''), (''sources'', PList [PStr ''F1'', PStr ''F2''])]])]])]))
     = map (\<lambda>s. map (with_sources (Some [''F1'', ''F2'', ''F3''])) (slide_topics s))
         (doc_slides (PDict [(''slides'', PList [PDict [(''topics'',
            PDict [(''subtitle'', PStr ''S'')])]])]))
   \<and> backfill (Some [''F1'', ''F2'', ''F3'']) = PList [PStr ''F1'', PStr ''F2'']
   \<and> backfill (Some []) = PList [PStr ''General industry reports'']"
proof -
  have a: "ensure_sources (Some [''F1'', ''F2'', ''F3''])
             (PDict [(''slides'', PList [PDict [(''topics'', PDict [(''subtitle'', PStr ''S'')])]])])
           = Inr (PDict [(''slides'', PList [PDict [(''topics'',
               PList [PDict [(''subtitle'', PStr ''S''),
                             (''sources'', PList [PStr ''F1'', PStr ''F2''])]])]])])"
    by code_simp
  show ?thesis by (rule sources_backfill [OF a])
qed

text \<open>
  The claim as stated fails: a topic whose sources are the empty list keeps them, facts
  or not.
\<close>

theorem empty_sources_stay_empty:
  "ensure_sources (Some [''F1'', ''F2'', ''F3''])
     (PDict [(''slides'', PList [PDict [(''topics'',
        PList [PDict [(''subtitle'', PStr ''S''), (''sources'', PList [])]])]])])
   = Inr (PDict [(''slides'', PList [PDict [(''topics'',
        PList [PDict [(''subtitle'', PStr ''S''), (''sources'', PList [])]])]])])
   \<and> \<not> list_all (\<lambda>s. list_all has_nonempty_sources (slide_topics s))
         (doc_slides (PDict [(''slides'', PList [PDict [(''topics'',
            PList [PDict [(''subtitle'', PStr ''S''), (''sources'', PList [])]])]])]))"
  by code_simp

section \<open>Idempotence\<close>

lemma emap_idem:
  assumes "\<And>x y. f x = Inr y \<Longrightarrow> f y = Inr y"
  shows "emap f xs = Inr ys \<Longrightarrow> emap f ys = Inr ys"
proof (induction xs arbitrary: ys)
  case Nil
  then show ?case by simp
next
  case (Cons x xs)
  from Cons.prems obtain y ys' where y: "f x = Inr y" and ys': "emap f xs = Inr ys'"
    and ys: "ys = y # ys'"
    by (auto split: sum.splits)
  from assms [OF y] Cons.IH [OF ys'] ys show ?case by simp
qed

lemma fix_topic_fixed: "has_list_sources t \<Longrightarrow> fix_topic facts t = Inr t"
  by (cases t) (simp_all add: fix_topic_dict with_sources_fixed, simp_all add: has_list_sources_def)

lemma fix_slide_idem:
  assumes "fix_slide facts s = Inr s'"
  shows "fix_slide facts s' = Inr s'"
proof -
  from fix_slide_Inr [OF assms] obtain kv where
    dicts: "list_all is_dict (slide_topics s)"
    and s': "s' = PDict (AList.update ''topics''
                          (PList (map (with_sources facts) (slide_topics s))) kv)"
    by blast
  have "emap (fix_topic facts) (map (with_sources facts) (slide_topics s))
        = Inr (map (with_sources facts) (slide_topics s))"
    by (rule emap_fixed [where P = has_list_sources])
       (simp_all add: fix_topic_fixed list_all_has_list_sources [OF dicts])
  then show ?thesis
    by (simp add: s' fix_slide_def AList.update_conv' coerce_topics_def)
qed

lemma ensure_sources_idem:
  assumes "ensure_sources facts d = Inr d'"
  shows "ensure_sources facts d' = Inr d'"
proof -
  from ensure_sources_Inr [OF assms] show ?thesis
  proof
    assume "d' = d \<and> doc_slides d = []"
    with assms show ?thesis by simp
  next
    assume "\<exists>kv ss'. d = PDict kv \<and> emap (fix_slide facts) (doc_slides d) = Inr ss'
            \<and> d' = PDict (AList.update ''slides'' (PList ss') kv)"
    then obtain kv ss' where ss': "emap (fix_slide facts) (doc_slides d) = Inr ss'"
      and d': "d' = PDict (AList.update ''slides'' (PList ss') kv)"
      by blast
    have "emap (fix_slide facts) ss' = Inr ss'"
      by (rule emap_idem [OF _ ss']) (rule fix_slide_idem)
    then show ?thesis
      by (simp add: d' ensure_sources_def AList.update_conv')
  qed
qed

lemma truthy_len_pos: "truthy v \<Longrightarrow> py_len v = Inr n \<Longrightarrow> 0 < n"
  by (cases v) auto

lemma autofix_categories_idem:
  assumes "autofix_categories c v = Inr c'"
  shows "autofix_categories c' v = Inr c'"
proof (cases "truthy v \<and> \<not> truthy c")
  case True
  with assms obtain n where n: "py_len v = Inr n" and c': "c' = item_labels n"
    by (auto simp: autofix_categories_def ebind_eq_Inr)
  from True n have "0 < n" by (auto intro: truthy_len_pos)
  then have "truthy c'" by (simp add: c' item_labels_def)
  then show ?thesis by (simp add: autofix_categories_def)
next
  case False
  with assms have "c' = c" by (auto simp: autofix_categories_def)
  with False show ?thesis by (auto simp: autofix_categories_def)
qed

text \<open>
  Claim C8. The normalization is idempotent: run on its own result, the topic coercion
  and sources backfill of the polishing stage return that result unchanged, and so does
  the synthesis of chart categories.
\<close>

theorem normalization_idempotent:
  "(ensure_sources facts d = Inr d' \<longrightarrow> ensure_sources facts d' = Inr d')
   \<and> (autofix_categories c v = Inr c' \<longrightarrow> autofix_categories c' v = Inr c')"
  by (simp add: ensure_sources_idem autofix_categories_idem)

theorem normalization_idempotent_witness:
  "ensure_sources (Some [''F1''])
     (PDict [(''slides'', PList [PDict [(''topics'',
        PList [PDict [(''subtitle'', PStr ''S''), (''sources'', PList [PStr ''F1''])]])]])])
   = Inr (PDict [(''slides'', PList [PDict [(''topics'',
        PList [PDict [(''subtitle'', PStr ''S''), (''sources'', PList [PStr ''F1''])]])]])])
   \<and> autofix_categories (PList [PStr ''Item 1'', PStr ''Item 2'']) (PList [PInt 7, PInt 8])
     = Inr (PList [PStr ''Item 1'', PStr ''Item 2''])"
proof -
  have a: "ensure_sources (Some [''F1''])
             (PDict [(''slides'', PList [PDict [(''topics'', PDict [(''subtitle'', PStr ''S'')])]])])
           = Inr (PDict [(''slides'', PList [PDict [(''topics'',
               PList [PDict [(''subtitle'', PStr ''S''), (''sources'', PList [PStr ''F1''])]])]])])"
    by code_simp
  have b: "autofix_categories (PList []) (PList [PInt 7, PInt 8])
           = Inr (PList [PStr ''Item 1'', PStr ''Item 2''])"
    by code_simp
  from normalization_idempotent [of "Some [''F1'']"
      "PDict [(''slides'', PList [PDict [(''topics'', PDict [(''subtitle'', PStr ''S'')])]])]"
      "PDict [(''slides'', PList [PDict [(''topics'',
               PList [PDict [(''subtitle'', PStr ''S''), (''sources'', PList [PStr ''F1''])]])]])]"
      "PList []" "PList [PInt 7, PInt 8]" "PList [PStr ''Item 1'', PStr ''Item 2'']"] a b
  show ?thesis by blast
qed

section \<open>Charts whose lengths differ\<close>

text \<open>
  Claim C2 does not hold of the code. A chart whose categories and values are lists
  that are not empty and differ in length is not truncated: the polishing stage leaves
  it as it is and \<open>render_chart\<close> skips it.
\<close>

theorem mismatched_chart_dropped:
  assumes "map_of kv ''categories'' = Some (PList cs)" and "map_of kv ''values'' = Some (PList vs)"
    and "cs \<noteq> []" and "vs \<noteq> []" and "length cs \<noteq> length vs"
  shows "render_chart (PDict kv) = []"
  using assms
  by (simp add: render_chart_def chart_body_def autofix_categories_def chart_invalid_def)

theorem mismatched_chart_dropped_witness:
  "render_chart (PDict [(''type'', PStr ''bar''),
      (''categories'', PList [PStr ''a'', PStr ''b'', PStr ''c'', PStr ''d'']),
      (''values'', PList [PInt 1, PInt 2])]) = []"
  by (rule mismatched_chart_dropped
        [where cs = "[PStr ''a'', PStr ''b'', PStr ''c'', PStr ''d'']" and vs = "[PInt 1, PInt 2]"])
     simp_all

section \<open>The run after the draft call\<close>

text \<open>
  On a document of the shape of the data model the sources backfill returns a document
  of that shape, and the presentation engine builds its deck.
\<close>

lemma topic_shape_dict: "topic_shape t \<Longrightarrow> is_dict t"
  by (cases t) (simp_all add: topic_shape_def)

lemma list_all_is_str_backfill:
  "\<exists>xs. backfill facts = PList xs \<and> list_all is_str xs"
  by (cases facts) (auto simp: backfill_def list_all_iff dest: in_set_takeD)

lemma topic_shape_with_sources:
  assumes "topic_shape t"
  shows "topic_shape (with_sources facts t)"
proof (cases "has_list_sources t")
  case True
  with assms show ?thesis by (simp add: with_sources_fixed)
next
  case False
  from assms obtain kv where t: "t = PDict kv" by (cases t) (simp_all add: topic_shape_def)
  from list_all_is_str_backfill [of facts] obtain xs where
    xs: "backfill facts = PList xs" "list_all is_str xs" by blast
  from assms False t xs show ?thesis
    by (simp add: with_sources_def topic_shape_def AList.update_conv')
qed

lemma emap_fix_topic_dicts:
  "list_all is_dict ts \<Longrightarrow> emap (fix_topic facts) ts = Inr (map (with_sources facts) ts)"
proof (induction ts)
  case Nil
  then show ?case by simp
next
  case (Cons t ts)
  from Cons.prems obtain kv where "t = PDict kv" by (cases t) simp_all
  with Cons show ?case by (simp add: fix_topic_dict)
qed

lemma slide_shape_topics:
  "slide_shape s \<Longrightarrow> is_dict s \<and> list_all topic_shape (slide_topics s)"
proof (cases s)
  case (PDict kv)
  assume a: "slide_shape s"
  show ?thesis
  proof (cases "map_of kv ''topics''")
    case None
    with PDict show ?thesis by (simp add: slide_topics_def)
  next
    case (Some v)
    with a PDict show ?thesis
      by (cases v) (simp_all add: slide_shape_def slide_topics_def coerce_topics_def)
  qed
qed (simp_all add: slide_shape_def)

lemma fix_slide_shape:
  assumes "slide_shape s"
  shows "\<exists>s'. fix_slide facts s = Inr s' \<and> slide_shape s'"
proof -
  from slide_shape_topics [OF assms] obtain kv where s: "s = PDict kv"
    and ts: "list_all topic_shape (slide_topics s)"
    by (cases s) simp_all
  have st: "slide_topics s =
      coerce_topics (case map_of kv ''topics'' of Some v \<Rightarrow> v | None \<Rightarrow> PList [])"
    using s by (simp add: slide_topics_def coerce_topics_def split: option.splits)
  from ts have "list_all is_dict (slide_topics s)"
    by (simp add: list_all_iff topic_shape_dict)
  then have e: "emap (fix_topic facts) (slide_topics s)
                = Inr (map (with_sources facts) (slide_topics s))"
    by (rule emap_fix_topic_dicts)
  from ts have "list_all topic_shape (map (with_sources facts) (slide_topics s))"
    by (simp add: list_all_iff topic_shape_with_sources)
  then have "slide_shape (PDict (AList.update ''topics''
      (PList (map (with_sources facts) (slide_topics s))) kv))"
    by (simp add: slide_shape_def AList.update_conv')
  moreover have "fix_slide facts s = Inr (PDict (AList.update ''topics''
      (PList (map (with_sources facts) (slide_topics s))) kv))"
    using e unfolding st by (simp add: fix_slide_def s)
  ultimately show ?thesis by simp
qed

lemma fix_slides_shape:
  "list_all slide_shape ss \<Longrightarrow>
     \<exists>ss'. emap (fix_slide facts) ss = Inr ss' \<and> list_all slide_shape ss'"
proof (induction ss)
  case Nil
  then show ?case by simp
next
  case (Cons s ss)
  from Cons.prems fix_slide_shape [of s facts] obtain s' where
    s': "fix_slide facts s = Inr s'" "slide_shape s'" by auto
  from Cons obtain ss' where ss': "emap (fix_slide facts) ss = Inr ss'" "list_all slide_shape ss'"
    by auto
  from s' ss' show ?case by simp
qed

lemma ensure_sources_shape:
  assumes "deck_shape d"
  shows "\<exists>d'. ensure_sources facts d = Inr d' \<and> deck_shape d'"
proof -
  from assms obtain kv where d: "d = PDict kv" by (cases d) (simp_all add: deck_shape_def)
  show ?thesis
  proof (cases "map_of kv ''slides''")
    case None
    with assms d show ?thesis by (simp add: ensure_sources_def)
  next
    case (Some v)
    with assms d obtain ss where v: "v = PList ss" and ss: "list_all slide_shape ss"
      by (cases v) (simp_all add: deck_shape_def)
    from fix_slides_shape [OF ss, of facts] obtain ss' where
      ss': "emap (fix_slide facts) ss = Inr ss'" "list_all slide_shape ss'" by blast
    from assms d Some v ss' show ?thesis
      by (simp add: ensure_sources_def deck_shape_def AList.update_conv')
  qed
qed

lemma emap_the_str: "list_all is_str xs \<Longrightarrow> \<exists>ys. emap the_str xs = Inr ys"
proof (induction xs)
  case Nil
  then show ?case by simp
next
  case (Cons x xs)
  from Cons.prems obtain s where "x = PStr s" by (cases x) simp_all
  with Cons show ?case by auto
qed

lemma py_join_strs: "list_all is_str xs \<Longrightarrow> \<exists>j. py_join sep (PList xs) = Inr j"
  using emap_the_str [of xs] by (auto simp: py_join_def)

lemma render_topic_shape:
  assumes "topic_shape t"
  shows "\<exists>bs. render_topic followed t = Inr bs"
proof -
  from assms obtain kv where t: "t = PDict kv" by (cases t) (simp_all add: topic_shape_def)
  from assms t have
    "\<exists>b1. (if truthy (case map_of kv ''subtitle'' of Some v \<Rightarrow> v | None \<Rightarrow> PStr [])
           then ebind (the_str (case map_of kv ''subtitle'' of Some v \<Rightarrow> v | None \<Rightarrow> PStr []))
                  (\<lambda>s. Inr [Subtitle s])
           else Inr []) = Inr b1"
    by (cases "map_of kv ''subtitle''"; cases "the (map_of kv ''subtitle'')")
       (simp_all add: topic_shape_def)
  then obtain b1 where b1:
    "(if truthy (case map_of kv ''subtitle'' of Some v \<Rightarrow> v | None \<Rightarrow> PStr [])
      then ebind (the_str (case map_of kv ''subtitle'' of Some v \<Rightarrow> v | None \<Rightarrow> PStr []))
             (\<lambda>s. Inr [Subtitle s])
      else Inr []) = Inr b1" ..
  from assms t have
    "\<exists>bs. py_iter (case map_of kv ''bullets'' of Some v \<Rightarrow> v | None \<Rightarrow> PList []) = Inr bs"
    by (cases "map_of kv ''bullets''"; cases "the (map_of kv ''bullets'')")
       (simp_all add: topic_shape_def)
  then obtain bs where bs:
    "py_iter (case map_of kv ''bullets'' of Some v \<Rightarrow> v | None \<Rightarrow> PList []) = Inr bs" ..
  have "\<exists>b3. (if truthy (case map_of kv ''sources'' of Some v \<Rightarrow> v | None \<Rightarrow> PList [])
           then ebind (py_join ''; '' (case map_of kv ''sources'' of Some v \<Rightarrow> v | None \<Rightarrow> PList []))
                  (\<lambda>j. Inr [SourcesLine (''Sources: '' @ j)])
           else Inr []) = Inr b3"
  proof (cases "map_of kv ''sources''")
    case None
    then show ?thesis by simp
  next
    case (Some v)
    with assms t obtain xs where "v = PList xs" "list_all is_str xs"
      by (cases v) (simp_all add: topic_shape_def)
    with Some py_join_strs [of xs "''; ''"] show ?thesis by auto
  qed
  then obtain b3 where b3:
    "(if truthy (case map_of kv ''sources'' of Some v \<Rightarrow> v | None \<Rightarrow> PList [])
      then ebind (py_join ''; '' (case map_of kv ''sources'' of Some v \<Rightarrow> v | None \<Rightarrow> PList []))
             (\<lambda>j. Inr [SourcesLine (''Sources: '' @ j)])
      else Inr []) = Inr b3" ..
  have b4: "\<exists>b4. (if map_of kv ''chart'' \<noteq> None
            then ebind (py_getitem (PDict kv) ''chart'') (\<lambda>c. Inr (render_chart c))
            else Inr []) = Inr b4"
    by auto
  have b5: "\<exists>b5. (if map_of kv ''table'' \<noteq> None
            then ebind (py_getitem (PDict kv) ''table'') (\<lambda>c. Inr (render_table c))
            else Inr []) = Inr b5"
    by auto
  from b4 obtain c4 where c4: "(if map_of kv ''chart'' \<noteq> None
            then ebind (py_getitem (PDict kv) ''chart'') (\<lambda>c. Inr (render_chart c))
            else Inr []) = Inr c4" ..
  from b5 obtain c5 where c5: "(if map_of kv ''table'' \<noteq> None
            then ebind (py_getitem (PDict kv) ''table'') (\<lambda>c. Inr (render_table c))
            else Inr []) = Inr c5" ..
  show ?thesis
    unfolding render_topic_def t
    by (simp only: py_get.simps py_contains.simps ebind_Inr b1 bs b3 c4 c5) simp
qed

lemma render_topics_shape:
  "list_all topic_shape ts \<Longrightarrow> \<exists>bs. render_topics ts = Inr bs"
proof (induction ts)
  case Nil
  then show ?case by simp
next
  case (Cons t ts)
  from Cons.prems render_topic_shape [of t "ts \<noteq> []"] obtain b where
    "render_topic (ts \<noteq> []) t = Inr b" by auto
  moreover from Cons obtain bs where "render_topics ts = Inr bs" by auto
  ultimately show ?case by simp
qed

lemma content_slide_shape:
  assumes "slide_shape s"
  shows "\<exists>sl. content_slide s = Inr sl"
proof -
  from slide_shape_topics [OF assms] obtain kv where s: "s = PDict kv"
    and ts: "list_all topic_shape (slide_topics s)"
    by (cases s) simp_all
  let ?V = "case map_of kv ''topics'' of Some v \<Rightarrow> v | None \<Rightarrow> PList []"
  have "(case ?V of PList ts \<Rightarrow> ts | _ \<Rightarrow> [?V]) = slide_topics s"
  proof (cases "map_of kv ''topics''")
    case None
    with s show ?thesis by (simp add: slide_topics_def)
  next
    case (Some v)
    with assms s show ?thesis
      by (cases v) (simp_all add: slide_shape_def slide_topics_def coerce_topics_def)
  qed
  moreover from render_topics_shape [OF ts] obtain bs where
    "render_topics (slide_topics s) = Inr bs" ..
  ultimately show ?thesis
    by (simp add: content_slide_def s)
qed

lemma content_slides_shape:
  "list_all slide_shape ss \<Longrightarrow> \<exists>sls. emap content_slide ss = Inr sls"
proof (induction ss)
  case Nil
  then show ?case by simp
next
  case (Cons s ss)
  from Cons.prems content_slide_shape [of s] obtain sl where "content_slide s = Inr sl" by auto
  moreover from Cons obtain sls where "emap content_slide ss = Inr sls" by auto
  ultimately show ?case by simp
qed

lemma topic_shape_bullets_topic: "topic_shape (bullets_topic bs)"
  by (simp add: topic_shape_def bullets_topic_def)

lemma create_presentation_shape:
  assumes "deck_shape d"
  shows "\<exists>deck. create_presentation d = Inr deck"
proof -
  from assms obtain kv where d: "d = PDict kv" by (cases d) (simp_all add: deck_shape_def)
  from assms d have "\<exists>ls. split_overview
      (case map_of kv ''overview'' of Some v \<Rightarrow> v | None \<Rightarrow> PStr []) 3 = Inr ls"
    by (cases "map_of kv ''overview''"; cases "the (map_of kv ''overview'')")
       (simp_all add: deck_shape_def split_overview_def Let_def)
  then obtain ls where ls: "split_overview
      (case map_of kv ''overview'' of Some v \<Rightarrow> v | None \<Rightarrow> PStr []) 3 = Inr ls" ..
  from render_topics_shape [of "[bullets_topic (map PStr ls)]"] obtain ob where
    ob: "render_topics [bullets_topic (map PStr ls)] = Inr ob"
    by (auto simp: topic_shape_bullets_topic simp del: render_topics.simps)
  have "\<exists>ss. py_iter (case map_of kv ''slides'' of Some v \<Rightarrow> v | None \<Rightarrow> PList []) = Inr ss
             \<and> list_all slide_shape ss"
  proof (cases "map_of kv ''slides''")
    case None
    then show ?thesis by simp
  next
    case (Some v)
    with assms d show ?thesis by (cases v) (simp_all add: deck_shape_def)
  qed
  then obtain ss where ss:
    "py_iter (case map_of kv ''slides'' of Some v \<Rightarrow> v | None \<Rightarrow> PList []) = Inr ss"
    and shapes: "list_all slide_shape ss" by blast
  from content_slides_shape [OF shapes] obtain sls where
    sls: "emap content_slide ss = Inr sls" ..
  show ?thesis
    unfolding create_presentation_def d
    by (simp only: py_get.simps ebind_Inr ls ob ss sls conclusion_slides_dict) simp
qed

lemma deck_shape_parsing_failed: "deck_shape (parsing_failed ov)"
  by (simp add: deck_shape_def parsing_failed_def)




end
